theory Spec2Isabelle
  imports Main "HOL-Library.AList"
begin

section \<open>Python values, text and process results\<close>

text \<open>
  Both scripts work on the records that \<^verbatim>\<open>csv.DictReader\<close> yields. An input is
  modelled after decoding and CSV parsing: \<open>None\<close> when \<^verbatim>\<open>os.path.exists\<close> is false,
  otherwise the list of rows \<^verbatim>\<open>csv.reader\<close> produces (a blank line is the row \<open>[]\<close>).
  The file the enricher writes is modelled the same way, as the list of rows handed to
  \<^verbatim>\<open>csv.writer\<close>; quoting and line ends are below this level.
  A \<open>char\<close> stands for one code point below 256, so \<open>strip\<close> and \<open>lower\<close> are
  those of Python's \<^verbatim>\<open>str\<close> on that range.

  A cell of a record is a string, or \<^verbatim>\<open>None\<close> where \<^verbatim>\<open>DictReader\<close> filled in its
  \<^verbatim>\<open>restval\<close>.
\<close>

datatype pyval = PyStr string | PyNone

text \<open>\<^verbatim>\<open>str(v)\<close>, also what an f-string prints for \<open>v\<close>.\<close>

fun py_str :: "pyval \<Rightarrow> string" where
  "py_str (PyStr s) = s"
| "py_str PyNone = ''None''"

definition isspace :: "char \<Rightarrow> bool" where
  "isspace c = ((of_char c :: nat) \<in> {9, 10, 11, 12, 13, 28, 29, 30, 31, 32, 133, 160})"

definition strip :: "string \<Rightarrow> string" where
  "strip s = rev (dropWhile isspace (rev (dropWhile isspace s)))"

definition lower_char :: "char \<Rightarrow> char" where
  "lower_char c =
     (let n = (of_char c :: nat)
      in if (65 \<le> n \<and> n \<le> 90) \<or> (192 \<le> n \<and> n \<le> 222 \<and> n \<noteq> 215)
         then char_of (n + 32) else c)"

definition lower :: "string \<Rightarrow> string" where
  "lower s = map lower_char s"

text \<open>\<^verbatim>\<open>sep.join(xs)\<close>\<close>

fun join :: "string \<Rightarrow> string list \<Rightarrow> string" where
  "join sep [] = []"
| "join sep [x] = x"
| "join sep (x # y # ys) = x @ sep @ join sep (y # ys)"

text \<open>\<^verbatim>\<open>str(n)\<close> for a non-negative integer: its decimal digits.\<close>

fun str_nat :: "nat \<Rightarrow> string" where
  "str_nat n =
     (if n < 10 then [char_of (48 + n)]
      else str_nat (n div 10) @ [char_of (48 + n mod 10)])"

declare str_nat.simps [simp del]

text \<open>The single quote of the f-string \<^verbatim>\<open>f"{b}='{row.get(b)}' not true/false"\<close>.\<close>

definition quote :: string where
  "quote = [CHR 0x27]"

datatype pyexn = TypeError | ValueError | KeyError

text \<open>
  How a run ends: by reaching the end of the script, by \<^verbatim>\<open>sys.exit(n)\<close>, by
  \<^verbatim>\<open>raise SystemExit(msg)\<close>, or by an exception nobody catches.
\<close>

datatype ending =
    Finished
  | SystemExit_code nat
  | SystemExit_msg string
  | Uncaught pyexn

fun exit_status :: "ending \<Rightarrow> nat" where
  "exit_status Finished = 0"
| "exit_status (SystemExit_code n) = n"
| "exit_status (SystemExit_msg m) = 1"
| "exit_status (Uncaught e) = 1"

text \<open>
  What the interpreter itself writes on the error stream when the run ends; neither
  script writes there on its own.
\<close>

datatype stderr_out = Silent | Message string | Traceback pyexn

fun stderr_of :: "ending \<Rightarrow> stderr_out" where
  "stderr_of Finished = Silent"
| "stderr_of (SystemExit_code n) = Silent"
| "stderr_of (SystemExit_msg m) = Message m"
| "stderr_of (Uncaught e) = Traceback e"

record run =
  stdout :: "string list"
  out_file :: "string list list option"
  ending :: ending

section \<open>csv.DictReader\<close>

text \<open>
  A record, as a Python dict in insertion order: the entries under string keys, and the
  entry under the key \<^verbatim>\<open>None\<close> (the \<^verbatim>\<open>restkey\<close>) that holds the surplus cells of a
  row longer than the header.
\<close>

record row_dict =
  cells :: "(string \<times> pyval) list"
  surplus :: "string list option"

text \<open>\<^verbatim>\<open>row.get(k, default)\<close> for a string key.\<close>

definition get :: "row_dict \<Rightarrow> string \<Rightarrow> pyval \<Rightarrow> pyval" where
  "get row k dflt = (case map_of (cells row) k of None \<Rightarrow> dflt | Some v \<Rightarrow> v)"

text \<open>
  \<^verbatim>\<open>d = dict(zip(self.fieldnames, row))\<close>, then either \<^verbatim>\<open>d[self.restkey] = row[lf:]\<close>
  or \<^verbatim>\<open>d[key] = self.restval\<close> for every key of \<^verbatim>\<open>self.fieldnames[lr:]\<close>.
\<close>

definition dict_zip :: "string list \<Rightarrow> string list \<Rightarrow> (string \<times> pyval) list" where
  "dict_zip fieldnames row =
     fold (\<lambda>(k, v) d. AList.update k (PyStr v) d) (zip fieldnames row) []"

definition DictReader_next :: "string list \<Rightarrow> string list \<Rightarrow> row_dict" where
  "DictReader_next fieldnames row =
     (let d = dict_zip fieldnames row;
          lf = length fieldnames;
          lr = length row
      in if lf < lr then \<lparr>cells = d, surplus = Some (drop lf row)\<rparr>
         else \<lparr>cells = fold (\<lambda>key d. AList.update key PyNone d) (drop lr fieldnames) d,
               surplus = None\<rparr>)"

text \<open>Iterating the reader: blank rows are skipped.\<close>

definition DictReader_rows :: "string list \<Rightarrow> string list list \<Rightarrow> row_dict list" where
  "DictReader_rows fieldnames rows =
     map (DictReader_next fieldnames) (filter (\<lambda>row. row \<noteq> []) rows)"

section \<open>The Row Validator (validate\_products\_csv.py)\<close>

definition REQ :: "string list" where
  "REQ = [''sku'', ''name'', ''aliases'', ''category'', ''skin_types'', ''key_ingredients'',
          ''claims'', ''fragrance_free'', ''oil_based'', ''condom_compatible'', ''size_ml'',
          ''price'', ''usage'', ''contraindications'', ''notes'']"

definition flags :: "string list" where
  "flags = [''fragrance_free'', ''oil_based'', ''condom_compatible'']"

definition flag_msg :: "row_dict \<Rightarrow> string \<Rightarrow> string" where
  "flag_msg row b = b @ ''='' @ quote @ py_str (get row b PyNone) @ quote @ '' not true/false''"

definition cross_msg :: string where
  "cross_msg = ''oil_based=true must imply condom_compatible=false''"

text \<open>The loop over the three flag columns, appending to \<open>errs\<close>.\<close>

fun flag_loop :: "row_dict \<Rightarrow> string list \<Rightarrow> string list \<Rightarrow> string list" where
  "flag_loop row [] errs = errs"
| "flag_loop row (b # bs) errs =
     (let v = lower (strip (py_str (get row b (PyStr ''''))))
      in flag_loop row bs (if v \<notin> {''true'', ''false''} then errs @ [flag_msg row b] else errs))"

definition row_errs :: "row_dict \<Rightarrow> string list" where
  "row_errs row =
     (let errs = flag_loop row flags [];
          errs = (if lower (strip (py_str (get row ''oil_based'' (PyStr '''')))) = ''true''
                     \<and> lower (strip (py_str (get row ''condom_compatible'' (PyStr '''')))) \<noteq> ''false''
                  then errs @ [cross_msg] else errs);
          errs = (if strip (py_str (get row ''sku'' (PyStr ''''))) = [] then errs @ [''sku empty'']
                  else errs);
          errs = (if strip (py_str (get row ''name'' (PyStr ''''))) = [] then errs @ [''name empty'']
                  else errs)
      in errs)"

definition report_line :: "nat \<Rightarrow> row_dict \<Rightarrow> string list \<Rightarrow> string" where
  "report_line i row errs =
     ''Row '' @ str_nat i @ '' ('' @ py_str (get row ''sku'' (PyStr ''?'')) @ ''): ''
       @ join ''; '' errs"

text \<open>The loop over the enumerated records; the state is \<open>bad\<close> and the lines printed.\<close>

fun row_loop :: "(nat \<times> row_dict) list \<Rightarrow> nat \<times> string list \<Rightarrow> nat \<times> string list" where
  "row_loop [] st = st"
| "row_loop ((i, row) # todo) (bad, out) =
     (let errs = row_errs row
      in if errs \<noteq> [] then row_loop todo (bad + 1, out @ [report_line i row errs])
         else row_loop todo (bad, out))"

definition summary :: "nat \<Rightarrow> string" where
  "summary bad = (if bad = 0 then ''OK'' else str_nat bad @ '' row(s) need fixes'')"

definition validate :: "string \<Rightarrow> string list list option \<Rightarrow> run" where
  "validate PATH file =
     (case file of
        None \<Rightarrow>
          \<lparr>stdout = [''File not found: '' @ PATH], out_file = None,
           ending = SystemExit_code 1\<rparr>
      | Some [] \<Rightarrow>
          \<lparr>stdout = [], out_file = None, ending = Uncaught TypeError\<rparr>
      | Some (fieldnames # rows) \<Rightarrow>
          (let missing_cols = filter (\<lambda>c. c \<notin> set fieldnames) REQ
           in if missing_cols \<noteq> [] then
                \<lparr>stdout = [''Missing columns: '' @ join '', '' missing_cols], out_file = None,
                 ending = SystemExit_code 1\<rparr>
              else
                (case row_loop (enumerate 2 (DictReader_rows fieldnames rows)) (0, []) of
                   (bad, out) \<Rightarrow>
                     \<lparr>stdout = out @ [summary bad], out_file = None,
                      ending = Finished\<rparr>)))"

section \<open>The Column Enricher (add\_missing\_columns.py)\<close>

definition need :: "string list" where
  "need = [''aliases'', ''skin_types'', ''oil_based'', ''condom_compatible'', ''notes'']"

text \<open>\<^verbatim>\<open>defaults = {k:"" for k in need}\<close>\<close>

definition defaults :: "(string \<times> string) list" where
  "defaults = map (\<lambda>k. (k, '''')) need"

text \<open>\<^verbatim>\<open>for k in need: if k not in fieldnames: fieldnames.append(k)\<close>\<close>

fun fieldnames_loop :: "string list \<Rightarrow> string list \<Rightarrow> string list" where
  "fieldnames_loop [] fieldnames = fieldnames"
| "fieldnames_loop (k # ks) fieldnames =
     fieldnames_loop ks (if k \<notin> set fieldnames then fieldnames @ [k] else fieldnames)"

text \<open>\<^verbatim>\<open>row.setdefault(k, v)\<close>: a key already there keeps its value, also the value \<^verbatim>\<open>None\<close>.\<close>

definition setdefault :: "row_dict \<Rightarrow> string \<Rightarrow> pyval \<Rightarrow> row_dict" where
  "setdefault row k v =
     (case map_of (cells row) k of
        None \<Rightarrow> row\<lparr>cells := cells row @ [(k, v)]\<rparr>
      | Some _ \<Rightarrow> row)"

text \<open>
  \<^verbatim>\<open>for k in need: row.setdefault(k, defaults[k])\<close>; the subscript \<^verbatim>\<open>defaults[k]\<close> raises
  \<^verbatim>\<open>KeyError\<close> for a key the dict lacks.
\<close>

fun setdefault_loop :: "string list \<Rightarrow> row_dict \<Rightarrow> pyexn + row_dict" where
  "setdefault_loop [] row = Inr row"
| "setdefault_loop (k # ks) row =
     (case map_of defaults k of
        None \<Rightarrow> Inl KeyError
      | Some v \<Rightarrow> setdefault_loop ks (setdefault row k (PyStr v)))"

text \<open>The loop over the reader, appending to \<open>rows\<close>.\<close>

fun read_loop :: "row_dict list \<Rightarrow> row_dict list \<Rightarrow> pyexn + row_dict list" where
  "read_loop [] rows = Inr rows"
| "read_loop (row # todo) rows =
     (case setdefault_loop need row of
        Inl e \<Rightarrow> Inl e
      | Inr row' \<Rightarrow> read_loop todo (rows @ [row']))"

subsection \<open>csv.DictWriter\<close>

text \<open>
  \<^verbatim>\<open>wrong_fields = rowdict.keys() - self.fieldnames\<close>; a key is a string or \<^verbatim>\<open>None\<close>.
\<close>

definition wrong_fields :: "string list \<Rightarrow> row_dict \<Rightarrow> string option list" where
  "wrong_fields fieldnames rowdict =
     map Some (filter (\<lambda>k. k \<notin> set fieldnames) (map fst (cells rowdict)))
       @ (case surplus rowdict of None \<Rightarrow> [] | Some _ \<Rightarrow> [None])"

text \<open>What the writer puts in a cell: \<^verbatim>\<open>None\<close> is written as the empty string.\<close>

fun csv_cell :: "pyval \<Rightarrow> string" where
  "csv_cell (PyStr s) = s"
| "csv_cell PyNone = ''''"

definition dict_to_list :: "string list \<Rightarrow> row_dict \<Rightarrow> pyexn + string list" where
  "dict_to_list fieldnames rowdict =
     (if wrong_fields fieldnames rowdict \<noteq> [] then Inl ValueError
      else Inr (map (\<lambda>key. csv_cell (get rowdict key (PyStr ''''))) fieldnames))"

text \<open>
  \<^verbatim>\<open>writerows\<close> converts and writes the records one after the other: the lines written
  before a record that raises stay in the file.
\<close>

fun writerows :: "string list \<Rightarrow> row_dict list \<Rightarrow> string list list
    \<Rightarrow> string list list \<times> pyexn option" where
  "writerows fieldnames [] written = (written, None)"
| "writerows fieldnames (rowdict # todo) written =
     (case dict_to_list fieldnames rowdict of
        Inl e \<Rightarrow> (written, Some e)
      | Inr line \<Rightarrow> writerows fieldnames todo (written @ [line]))"

definition enrich :: "string \<Rightarrow> string \<Rightarrow> string list list option \<Rightarrow> run" where
  "enrich in_path out_path file =
     (case file of
        None \<Rightarrow>
          \<lparr>stdout = [], out_file = None,
           ending = SystemExit_msg (''File not found: '' @ in_path)\<rparr>
      | Some content \<Rightarrow>
          (let header = (case content of [] \<Rightarrow> [] | h # _ \<Rightarrow> h);
               fieldnames = fieldnames_loop need header;
               records = (case content of [] \<Rightarrow> [] | h # rs \<Rightarrow> DictReader_rows h rs)
           in case read_loop records [] of
                Inl e \<Rightarrow> \<lparr>stdout = [], out_file = None, ending = Uncaught e\<rparr>
              | Inr rows \<Rightarrow>
                  (case writerows fieldnames rows [fieldnames] of
                     (written, Some e) \<Rightarrow>
                       \<lparr>stdout = [], out_file = Some written, ending = Uncaught e\<rparr>
                   | (written, None) \<Rightarrow>
                       \<lparr>stdout = [''Wrote '' @ out_path @ '' with columns: ''
                                   @ join '', '' fieldnames],
                        out_file = Some written, ending = Finished\<rparr>)))"

subsection \<open>Closed forms\<close>

text \<open>The record after the \<^verbatim>\<open>setdefault\<close> loop, every subscript \<^verbatim>\<open>defaults[k]\<close> being \<open>''''\<close>.\<close>

definition with_defaults :: "row_dict \<Rightarrow> row_dict" where
  "with_defaults row = fold (\<lambda>k r. setdefault r k (PyStr '''')) need row"

text \<open>The cells the writer puts on the line of a record.\<close>

definition line_of :: "string list \<Rightarrow> row_dict \<Rightarrow> string list" where
  "line_of fieldnames rowdict = map (\<lambda>key. csv_cell (get rowdict key (PyStr ''''))) fieldnames"

section \<open>Properties of the reader\<close>

lemma map_of_fold_update:
  "map_of (fold (\<lambda>(k, v) d. AList.update k (PyStr v) d) ps d0) =
     map_of d0 ++ map_of (rev (map (\<lambda>(k, v). (k, PyStr v)) ps))"
proof (induction ps arbitrary: d0)
  case Nil
  then show ?case by simp
next
  case (Cons p ps)
  obtain k v where p: "p = (k, v)" by (cases p)
  show ?case
    unfolding p by (simp add: Cons.IH update_conv' fun_eq_iff map_add_def split: option.splits)
qed

lemma map_of_dict_zip:
  "map_of (dict_zip fieldnames row) = map_of (rev (zip fieldnames (map PyStr row)))"
  by (simp add: dict_zip_def map_of_fold_update zip_map2)

lemma map_of_fold_restval:
  "map_of (fold (\<lambda>key d. AList.update key PyNone d) ks d0) k =
     (if k \<in> set ks then Some PyNone else map_of d0 k)"
  by (induction ks arbitrary: d0) (auto simp: update_conv')

lemma keys_fold_restval:
  "fst ` set (fold (\<lambda>key d. AList.update key PyNone d) ks d0) = set ks \<union> fst ` set d0"
  by (induction ks arbitrary: d0) (auto simp: dom_update)

lemma keys_dict_zip: "fst ` set (dict_zip fieldnames row) = set (take (length row) fieldnames)"
proof -
  have "fst ` set (dict_zip fieldnames row) = dom (map_of (dict_zip fieldnames row))"
    by (simp add: dom_map_of_conv_image_fst)
  also have "\<dots> = fst ` set (zip fieldnames (map PyStr row))"
    by (simp add: map_of_dict_zip dom_map_of_conv_image_fst)
  also have "\<dots> = set (map fst (zip fieldnames (map PyStr row)))"
    by simp
  also have "\<dots> = set (take (min (length fieldnames) (length row)) fieldnames)"
    unfolding map_fst_zip_take by simp
  also have "\<dots> = set (take (length row) fieldnames)"
    by (simp add: min_def)
  finally show ?thesis .
qed

lemma nth_in_drop:
  assumes "n \<le> i" "i < length xs"
  shows "xs ! i \<in> set (drop n xs)"
proof -
  have "drop n xs ! (i - n) = xs ! i" using assms by simp
  moreover have "i - n < length (drop n xs)" using assms by simp
  ultimately show ?thesis by (metis nth_mem)
qed

text \<open>A cell the row is too short for is \<^verbatim>\<open>None\<close>, whatever the default of \<open>get\<close>.\<close>

lemma get_restval:
  assumes "length row \<le> i" "i < length fieldnames"
  shows "get (DictReader_next fieldnames row) (fieldnames ! i) dflt = PyNone"
  using assms nth_in_drop [OF assms]
  by (simp add: get_def DictReader_next_def Let_def map_of_fold_restval)

lemma surplus_DictReader_next:
  "surplus (DictReader_next fieldnames row) =
     (if length fieldnames < length row then Some (drop (length fieldnames) row) else None)"
  by (simp add: DictReader_next_def Let_def)

lemma keys_DictReader_next:
  "fst ` set (cells (DictReader_next fieldnames row)) \<subseteq> set fieldnames"
  by (auto simp: DictReader_next_def Let_def keys_dict_zip keys_fold_restval
           dest: in_set_takeD in_set_dropD)

section \<open>Properties of the Row Validator\<close>

lemma flag_loop_eq:
  "flag_loop row bs errs =
     errs @ map (flag_msg row)
       (filter (\<lambda>b. lower (strip (py_str (get row b (PyStr '''')))) \<notin> {''true'', ''false''}) bs)"
  by (induction bs arbitrary: errs) (simp_all add: Let_def)

lemma row_loop_eq:
  "row_loop xs (bad, out) =
     (bad + length (filter (\<lambda>(i, row). row_errs row \<noteq> []) xs),
      out @ map (\<lambda>(i, row). report_line i row (row_errs row))
              (filter (\<lambda>(i, row). row_errs row \<noteq> []) xs))"
  by (induction xs arbitrary: bad out) (auto simp: Let_def)

lemma missing_cols_empty:
  "filter (\<lambda>c. c \<notin> set fieldnames) REQ = [] \<longleftrightarrow> set REQ \<subseteq> set fieldnames"
  by (auto simp: filter_empty_conv)

text \<open>
  With a complete header the run prints one line for each record that has errors, in the
  order of the records, then the summary, and ends normally.
\<close>

lemma validate_good_header:
  assumes "set REQ \<subseteq> set fieldnames"
  shows "validate PATH (Some (fieldnames # rows)) =
     (let bad_rows = filter (\<lambda>(i, row). row_errs row \<noteq> [])
                       (enumerate 2 (DictReader_rows fieldnames rows))
      in \<lparr>stdout = map (\<lambda>(i, row). report_line i row (row_errs row)) bad_rows
                      @ [summary (length bad_rows)],
          out_file = None, ending = Finished\<rparr>)"
  using assms by (simp add: validate_def missing_cols_empty row_loop_eq Let_def)

lemma flag_msg_inj:
  "b \<in> set flags \<Longrightarrow> b' \<in> set flags \<Longrightarrow> flag_msg row b = flag_msg row b' \<Longrightarrow> b = b'"
  by (auto simp: flags_def flag_msg_def)

lemma flag_msg_other:
  "b \<in> set flags \<Longrightarrow> flag_msg row b \<notin> {cross_msg, ''sku empty'', ''name empty''}"
  by (auto simp: flags_def flag_msg_def cross_msg_def quote_def)

lemma set_row_errs:
  "set (row_errs row) =
     flag_msg row ` {b \<in> set flags.
        lower (strip (py_str (get row b (PyStr '''')))) \<notin> {''true'', ''false''}}
     \<union> (if lower (strip (py_str (get row ''oil_based'' (PyStr '''')))) = ''true''
            \<and> lower (strip (py_str (get row ''condom_compatible'' (PyStr '''')))) \<noteq> ''false''
         then {cross_msg} else {})
     \<union> (if strip (py_str (get row ''sku'' (PyStr ''''))) = [] then {''sku empty''} else {})
     \<union> (if strip (py_str (get row ''name'' (PyStr ''''))) = [] then {''name empty''} else {})"
  unfolding row_errs_def flag_loop_eq Let_def by auto

lemma flag_msg_in_row_errs:
  assumes "b \<in> set flags"
    and "lower (strip (py_str (get row b (PyStr '''')))) \<notin> {''true'', ''false''}"
  shows "flag_msg row b \<in> set (row_errs row)"
  unfolding set_row_errs using assms by blast

lemma flag_msg_iff:
  assumes "b \<in> set flags"
  shows "flag_msg row b \<in> set (row_errs row)
         \<longleftrightarrow> lower (strip (py_str (get row b (PyStr '''')))) \<notin> {''true'', ''false''}"
  using assms flag_msg_other [OF assms, of row] flag_msg_inj [OF assms, of _ row]
  unfolding set_row_errs by (auto split: if_splits)

text \<open>
  C1. A record with an empty \<open>sku\<close>, the name \<open>Foo\<close> and three valid flags gets one report
  line with the single error \<open>sku empty\<close>; the prefix of that line shows the empty \<open>sku\<close>
  between the parentheses, not a question mark.
\<close>

theorem empty_sku_report:
  "stdout (validate ''products.csv''
     (Some [REQ, ['''', ''Foo'', '''', '''', '''', '''', '''', ''true'', ''false'', ''false'',
                  '''', '''', '''', '''', '''']]))
   = [''Row 2 (): sku empty'', ''1 row(s) need fixes'']"
  by code_simp

text \<open>
  C2. When the header lacks a required column, the run prints the single line
  \<open>Missing columns:\<close> followed by the missing names, which are the required names absent
  from the header in the order of \<open>REQ\<close>, and exits with status 1; the data rows play no
  part in the result.
\<close>

theorem missing_columns_exit:
  assumes "\<not> set REQ \<subseteq> set fieldnames"
  shows "validate PATH (Some (fieldnames # rows)) =
           \<lparr>stdout = [''Missing columns: ''
                       @ join '', '' (filter (\<lambda>c. c \<notin> set fieldnames) REQ)],
            out_file = None, ending = SystemExit_code 1\<rparr>
         \<and> exit_status (ending (validate PATH (Some (fieldnames # rows)))) = 1
         \<and> validate PATH (Some (fieldnames # rows)) = validate PATH (Some [fieldnames])"
  using assms by (simp add: validate_def missing_cols_empty Let_def)

theorem missing_columns_exit_witness:
  "\<not> set REQ \<subseteq> set [''sku'', ''name'']
   \<and> stdout (validate ''products.csv'' (Some [[''sku'', ''name''], [''S1'', ''Soap'']]))
       = [''Missing columns: aliases, category, skin_types, key_ingredients, claims, fragrance_free, oil_based, condom_compatible, size_ml, price, usage, contraindications, notes'']
   \<and> exit_status (ending (validate ''products.csv''
         (Some [[''sku'', ''name''], [''S1'', ''Soap'']]))) = 1"
proof -
  have h: "\<not> set REQ \<subseteq> set [''sku'', ''name'']"
    by (simp add: REQ_def)
  have j: "join '', '' (filter (\<lambda>c. c \<notin> set [''sku'', ''name'']) REQ)
           = ''aliases, category, skin_types, key_ingredients, claims, fragrance_free, oil_based, condom_compatible, size_ml, price, usage, contraindications, notes''"
    by code_simp
  show ?thesis
    using h j missing_columns_exit [OF h, of "''products.csv''" "[[''S1'', ''Soap'']]"]
    by simp
qed

text \<open>
  C3. The exit status of the validator is 1 when the input file does not exist, when it
  has no header line, and when its header lacks a required column; in every other case it
  is 0, whatever the data rows hold.
\<close>

theorem exit_status_validate:
  "exit_status (ending (validate PATH file)) =
     (case file of
        None \<Rightarrow> 1
      | Some [] \<Rightarrow> 1
      | Some (fieldnames # rows) \<Rightarrow> if set REQ \<subseteq> set fieldnames then 0 else 1)"
  by (simp add: validate_def missing_cols_empty row_loop_eq Let_def
           split: option.splits list.splits)

theorem exit_status_validate_witness:
  "stdout (validate ''products.csv''
     (Some [REQ, [''S1'', '''', '''', '''', '''', '''', '''', ''true'', ''true'', ''true'',
                  '''', '''', '''', '''', '''']]))
     = [''Row 2 (S1): oil_based=true must imply condom_compatible=false; name empty'',
        ''1 row(s) need fixes'']
   \<and> exit_status (ending (validate ''products.csv''
     (Some [REQ, [''S1'', '''', '''', '''', '''', '''', '''', ''true'', ''true'', ''true'',
                  '''', '''', '''', '''', '''']]))) = 0"
proof -
  have out: "stdout (validate ''products.csv''
     (Some [REQ, [''S1'', '''', '''', '''', '''', '''', '''', ''true'', ''true'', ''true'',
                  '''', '''', '''', '''', '''']]))
     = [''Row 2 (S1): oil_based=true must imply condom_compatible=false; name empty'',
        ''1 row(s) need fixes'']"
    by code_simp
  show ?thesis
    using out exit_status_validate [of "''products.csv''"
      "Some [REQ, [''S1'', '''', '''', '''', '''', '''', '''', ''true'', ''true'', ''true'',
                   '''', '''', '''', '''', '''']]"]
    by simp
qed

text \<open>
  C4. A record whose \<open>oil_based\<close> is \<open>true\<close> after trimming and lowercasing, and whose
  \<open>condom_compatible\<close> is not \<open>false\<close> after the same, has the cross-field message among
  its errors; when \<open>condom_compatible\<close> is not a valid flag either, its flag error is there
  as well.
\<close>

theorem cross_field_error:
  assumes "lower (strip (py_str (get row ''oil_based'' (PyStr '''')))) = ''true''"
    and "lower (strip (py_str (get row ''condom_compatible'' (PyStr '''')))) \<noteq> ''false''"
  shows "''oil_based=true must imply condom_compatible=false'' \<in> set (row_errs row)
         \<and> (lower (strip (py_str (get row ''condom_compatible'' (PyStr ''''))))
                \<notin> {''true'', ''false''}
              \<longrightarrow> {''condom_compatible='' @ quote @ py_str (get row ''condom_compatible'' PyNone)
                      @ quote @ '' not true/false'',
                   ''oil_based=true must imply condom_compatible=false''}
                  \<subseteq> set (row_errs row))"
proof -
  have cross: "cross_msg \<in> set (row_errs row)"
    using assms by (simp add: set_row_errs)
  have flag: "flag_msg row ''condom_compatible'' \<in> set (row_errs row)"
    if "lower (strip (py_str (get row ''condom_compatible'' (PyStr ''''))))
          \<notin> {''true'', ''false''}"
    using that flag_msg_in_row_errs [of "''condom_compatible''" row] by (simp add: flags_def)
  show ?thesis
    using cross flag by (simp add: cross_msg_def flag_msg_def)
qed

theorem cross_field_error_witness:
  "lower (strip (py_str (get
       (DictReader_next [''oil_based'', ''condom_compatible''] ['' TRUE'', ''maybe''])
       ''oil_based'' (PyStr '''')))) = ''true''
   \<and> lower (strip (py_str (get
       (DictReader_next [''oil_based'', ''condom_compatible''] ['' TRUE'', ''maybe''])
       ''condom_compatible'' (PyStr '''')))) \<notin> {''true'', ''false''}
   \<and> {''condom_compatible='' @ quote @ ''maybe'' @ quote @ '' not true/false'',
       ''oil_based=true must imply condom_compatible=false''}
      \<subseteq> set (row_errs
           (DictReader_next [''oil_based'', ''condom_compatible''] ['' TRUE'', ''maybe'']))"
proof -
  let ?row = "DictReader_next [''oil_based'', ''condom_compatible''] ['' TRUE'', ''maybe'']"
  have h1: "lower (strip (py_str (get ?row ''oil_based'' (PyStr '''')))) = ''true''"
    by code_simp
  have h2: "lower (strip (py_str (get ?row ''condom_compatible'' (PyStr '''')))) \<noteq> ''false''"
    by code_simp
  have h3: "lower (strip (py_str (get ?row ''condom_compatible'' (PyStr ''''))))
              \<notin> {''true'', ''false''}"
    by code_simp
  have raw: "py_str (get ?row ''condom_compatible'' PyNone) = ''maybe''"
    by code_simp
  show ?thesis
    using cross_field_error [OF h1 h2] h1 h3 raw by simp
qed

text \<open>
  C5. For each of the three flag columns, the error that names the column and shows its
  raw value is among the record's errors exactly when the value, trimmed and lowercased,
  is neither \<open>true\<close> nor \<open>false\<close>; an empty cell is such a value.
\<close>

theorem flag_error_iff:
  assumes "b \<in> set flags"
  shows "((b @ ''='' @ quote @ py_str (get row b PyNone) @ quote @ '' not true/false''
             \<in> set (row_errs row))
          \<longleftrightarrow> lower (strip (py_str (get row b (PyStr '''')))) \<notin> {''true'', ''false''})
         \<and> (map_of (cells row) b = Some (PyStr '''')
              \<longrightarrow> b @ ''='' @ quote @ quote @ '' not true/false'' \<in> set (row_errs row))"
proof -
  have iff: "flag_msg row b \<in> set (row_errs row)
        \<longleftrightarrow> lower (strip (py_str (get row b (PyStr '''')))) \<notin> {''true'', ''false''}"
    using assms by (rule flag_msg_iff)
  have "flag_msg row b \<in> set (row_errs row)" if "map_of (cells row) b = Some (PyStr '''')"
  proof -
    have "lower (strip (py_str (get row b (PyStr '''')))) = ''''"
      using that by (simp add: get_def strip_def lower_def)
    then show ?thesis
      using iff by simp
  qed
  moreover have "flag_msg row b = b @ ''='' @ quote @ quote @ '' not true/false''"
    if "map_of (cells row) b = Some (PyStr '''')"
    using that by (simp add: flag_msg_def get_def)
  ultimately show ?thesis
    using iff by (auto simp: flag_msg_def)
qed

theorem flag_error_iff_witness:
  "''oil_based'' \<in> set flags
   \<and> lower (strip (py_str (get (DictReader_next [''sku'', ''oil_based''] [''S1'', ''Yes''])
         ''oil_based'' (PyStr '''')))) \<notin> {''true'', ''false''}
   \<and> ''oil_based='' @ quote @ ''Yes'' @ quote @ '' not true/false''
         \<in> set (row_errs (DictReader_next [''sku'', ''oil_based''] [''S1'', ''Yes'']))
   \<and> map_of (cells (DictReader_next [''sku'', ''oil_based''] [''S2'', ''''])) ''oil_based''
         = Some (PyStr '''')
   \<and> ''oil_based='' @ quote @ quote @ '' not true/false''
         \<in> set (row_errs (DictReader_next [''sku'', ''oil_based''] [''S2'', '''']))"
proof -
  let ?row = "DictReader_next [''sku'', ''oil_based''] [''S1'', ''Yes'']"
  let ?row2 = "DictReader_next [''sku'', ''oil_based''] [''S2'', '''']"
  have h: "''oil_based'' \<in> set flags"
    by (simp add: flags_def)
  have v: "lower (strip (py_str (get ?row ''oil_based'' (PyStr '''')))) \<notin> {''true'', ''false''}"
    by code_simp
  have raw: "py_str (get ?row ''oil_based'' PyNone) = ''Yes''"
    by code_simp
  have e: "map_of (cells ?row2) ''oil_based'' = Some (PyStr '''')"
    by code_simp
  show ?thesis
    using flag_error_iff [OF h, of ?row] flag_error_iff [OF h, of ?row2] h v raw e by simp
qed

text \<open>
  C6, as the claim states it: the validator, run on a path that does not exist, leaves
  the error stream untouched and prints its message on the standard output.
\<close>

theorem validate_fatal_on_stdout:
  "stderr_of (ending (validate ''products.csv'' None)) = Silent
   \<and> stdout (validate ''products.csv'' None) = [''File not found: products.csv'']"
  by (simp add: validate_def)

text \<open>
  C6, amended. Every fatal condition ends the run with status 1. The enricher's message
  for an absent input goes to the error stream and nothing to the standard output; the
  validator prints both of its fatal messages on the standard output and leaves the error
  stream untouched. The report line of every record with errors is on the standard output
  too.
\<close>

theorem fatal_conditions:
  "exit_status (ending (enrich in_path out_path None)) = 1
   \<and> stderr_of (ending (enrich in_path out_path None)) = Message (''File not found: '' @ in_path)
   \<and> stdout (enrich in_path out_path None) = []
   \<and> exit_status (ending (validate PATH None)) = 1
   \<and> stderr_of (ending (validate PATH None)) = Silent
   \<and> stdout (validate PATH None) = [''File not found: '' @ PATH]
   \<and> (\<not> set REQ \<subseteq> set fieldnames \<longrightarrow>
        exit_status (ending (validate PATH (Some (fieldnames # rows)))) = 1
        \<and> stderr_of (ending (validate PATH (Some (fieldnames # rows)))) = Silent
        \<and> stdout (validate PATH (Some (fieldnames # rows)))
            = [''Missing columns: '' @ join '', '' (filter (\<lambda>c. c \<notin> set fieldnames) REQ)])
   \<and> (set REQ \<subseteq> set fieldnames' \<longrightarrow>
        stderr_of (ending (validate PATH (Some (fieldnames' # rows')))) = Silent
        \<and> (\<forall>(i, row) \<in> set (enumerate 2 (DictReader_rows fieldnames' rows')).
             row_errs row \<noteq> [] \<longrightarrow>
             report_line i row (row_errs row)
               \<in> set (stdout (validate PATH (Some (fieldnames' # rows'))))))"
proof -
  have absent: "exit_status (ending (enrich in_path out_path None)) = 1
      \<and> stderr_of (ending (enrich in_path out_path None))
          = Message (''File not found: '' @ in_path)
      \<and> stdout (enrich in_path out_path None) = []
      \<and> exit_status (ending (validate PATH None)) = 1
      \<and> stderr_of (ending (validate PATH None)) = Silent
      \<and> stdout (validate PATH None) = [''File not found: '' @ PATH]"
    by (simp add: enrich_def validate_def)
  have schema: "exit_status (ending (validate PATH (Some (fieldnames # rows)))) = 1
      \<and> stderr_of (ending (validate PATH (Some (fieldnames # rows)))) = Silent
      \<and> stdout (validate PATH (Some (fieldnames # rows)))
          = [''Missing columns: '' @ join '', '' (filter (\<lambda>c. c \<notin> set fieldnames) REQ)]"
    if "\<not> set REQ \<subseteq> set fieldnames"
    using that by (simp add: validate_def missing_cols_empty Let_def)
  have per_row: "stderr_of (ending (validate PATH (Some (fieldnames' # rows')))) = Silent
      \<and> (\<forall>(i, row) \<in> set (enumerate 2 (DictReader_rows fieldnames' rows')).
            row_errs row \<noteq> [] \<longrightarrow>
            report_line i row (row_errs row)
              \<in> set (stdout (validate PATH (Some (fieldnames' # rows')))))"
    if "set REQ \<subseteq> set fieldnames'"
  proof -
    have "validate PATH (Some (fieldnames' # rows')) =
        (let bad_rows = filter (\<lambda>(i, row). row_errs row \<noteq> [])
                          (enumerate 2 (DictReader_rows fieldnames' rows'))
         in \<lparr>stdout = map (\<lambda>(i, row). report_line i row (row_errs row)) bad_rows
                         @ [summary (length bad_rows)],
             out_file = None, ending = Finished\<rparr>)"
      using that by (rule validate_good_header)
    then show ?thesis
      by (force simp: Let_def)
  qed
  show ?thesis
    using absent schema per_row by blast
qed

theorem fatal_conditions_witness:
  "stderr_of (ending (enrich ''products.csv'' ''products_enriched.csv'' None))
     = Message ''File not found: products.csv''
   \<and> \<not> set REQ \<subseteq> set [''sku'', ''name'']
   \<and> exit_status (ending (validate ''products.csv'' (Some [[''sku'', ''name'']]))) = 1
   \<and> stderr_of (ending (validate ''products.csv'' (Some [[''sku'', ''name'']]))) = Silent
   \<and> set REQ \<subseteq> set REQ
   \<and> (2, DictReader_next REQ [''S1'']) \<in> set (enumerate 2 (DictReader_rows REQ [[''S1'']]))
   \<and> row_errs (DictReader_next REQ [''S1'']) \<noteq> []
   \<and> report_line 2 (DictReader_next REQ [''S1'']) (row_errs (DictReader_next REQ [''S1'']))
       \<in> set (stdout (validate ''products.csv'' (Some [REQ, [''S1'']])))"
proof -
  have h1: "\<not> set REQ \<subseteq> set [''sku'', ''name'']"
    by (simp add: REQ_def)
  have h2: "set REQ \<subseteq> set REQ"
    by simp
  have h3: "(2, DictReader_next REQ [''S1'']) \<in> set (enumerate 2 (DictReader_rows REQ [[''S1'']]))"
    by (simp add: DictReader_rows_def)
  have h4: "row_errs (DictReader_next REQ [''S1'']) \<noteq> []"
    by code_simp
  note inst = fatal_conditions [of "''products.csv''" "''products_enriched.csv''"
      "''products.csv''" "[''sku'', ''name'']" "[]" REQ "[[''S1'']]"]
  from inst h2 h3 h4
  have "report_line 2 (DictReader_next REQ [''S1'']) (row_errs (DictReader_next REQ [''S1'']))
       \<in> set (stdout (validate ''products.csv'' (Some [REQ, [''S1'']])))"
    by fastforce
  then show ?thesis
    using inst h1 h2 h3 h4 by simp
qed

text \<open>
  C9. A cell the row is too short for does not count as empty for \<open>sku\<close> and \<open>name\<close>:
  it is \<^verbatim>\<open>None\<close>, and \<^verbatim>\<open>str\<close> turns it into the four letters \<open>None\<close>. Under the header
  \<open>REQ\<close> the row that stops after its \<open>sku\<close> cell gets no \<open>name empty\<close> error; and when
  \<open>name\<close> is the last of the 15 columns, a row with the 14 other cells, all valid, and no
  \<open>name\<close> cell passes: the run prints \<open>OK\<close>.
\<close>

theorem missing_name_passes:
  "get (DictReader_next REQ [''S1'']) ''name'' (PyStr '''') = PyNone
   \<and> strip (py_str (get (DictReader_next REQ [''S1'']) ''name'' (PyStr ''''))) = ''None''
   \<and> ''name empty'' \<notin> set (row_errs (DictReader_next REQ [''S1'']))
   \<and> stdout (validate ''products.csv''
        (Some [[''sku'', ''aliases'', ''category'', ''skin_types'', ''key_ingredients'',
                ''claims'', ''fragrance_free'', ''oil_based'', ''condom_compatible'',
                ''size_ml'', ''price'', ''usage'', ''contraindications'', ''notes'', ''name''],
               [''S1'', '''', '''', '''', '''', '''', ''true'', ''false'', ''false'',
                '''', '''', '''', '''', '''']]))
      = [''OK'']"
  by code_simp

text \<open>
  With a complete header the validator runs to its end without raising and writes no
  file, whatever the lengths of the data rows. A cell the row is too short for is
  \<^verbatim>\<open>None\<close>; in a flag column it fails the flag check, and the error shows it as
  \<open>None\<close>.
\<close>

lemma validate_completes:
  assumes "set REQ \<subseteq> set fieldnames"
  shows "ending (validate PATH (Some (fieldnames # rows))) = Finished
         \<and> out_file (validate PATH (Some (fieldnames # rows))) = None
         \<and> (\<forall>row i. length row \<le> i \<and> i < length fieldnames \<longrightarrow>
               get (DictReader_next fieldnames row) (fieldnames ! i) dflt = PyNone
               \<and> (fieldnames ! i \<in> set flags \<longrightarrow>
                    fieldnames ! i @ ''='' @ quote @ ''None'' @ quote @ '' not true/false''
                      \<in> set (row_errs (DictReader_next fieldnames row))))"
proof -
  have run: "ending (validate PATH (Some (fieldnames # rows))) = Finished
      \<and> out_file (validate PATH (Some (fieldnames # rows))) = None"
    using validate_good_header [OF assms, of PATH rows] by (simp add: Let_def)
  have short: "get (DictReader_next fieldnames row) (fieldnames ! i) d = PyNone"
    if "length row \<le> i" "i < length fieldnames" for row i d
    using that by (rule get_restval)
  have none: "lower (strip ''None'') \<notin> {''true'', ''false''}"
    by code_simp
  have flag: "fieldnames ! i @ ''='' @ quote @ ''None'' @ quote @ '' not true/false''
                \<in> set (row_errs (DictReader_next fieldnames row))"
    if "length row \<le> i" "i < length fieldnames" "fieldnames ! i \<in> set flags" for row i
  proof -
    have "flag_msg (DictReader_next fieldnames row) (fieldnames ! i)
            \<in> set (row_errs (DictReader_next fieldnames row))"
      using that(3) none by (intro flag_msg_in_row_errs) (simp_all add: short [OF that(1,2)])
    then show ?thesis
      by (simp add: flag_msg_def short [OF that(1,2)])
  qed
  show ?thesis
    using run short flag by blast
qed

section \<open>Properties of the Column Enricher\<close>

lemma fieldnames_loop_eq:
  "distinct ks \<Longrightarrow>
     fieldnames_loop ks fieldnames = fieldnames @ filter (\<lambda>k. k \<notin> set fieldnames) ks"
  by (induction ks arbitrary: fieldnames) (auto intro!: filter_cong)

lemma distinct_need: "distinct need"
  by (simp add: need_def)

lemma fieldnames_need:
  "fieldnames_loop need header = header @ filter (\<lambda>k. k \<notin> set header) need"
  by (simp add: fieldnames_loop_eq distinct_need)

lemma fieldnames_need_complete:
  "set need \<subseteq> set header \<Longrightarrow> fieldnames_loop need header = header"
  by (auto simp: fieldnames_need filter_empty_conv)

lemma defaults_need: "k \<in> set need \<Longrightarrow> map_of defaults k = Some ''''"
  by (simp add: defaults_def map_of_map_restrict)

lemma setdefault_loop_fold:
  "set ks \<subseteq> set need \<Longrightarrow>
     setdefault_loop ks row = Inr (fold (\<lambda>k r. setdefault r k (PyStr '''')) ks row)"
  by (induction ks arbitrary: row) (simp_all add: defaults_need)

lemma setdefault_loop_need: "setdefault_loop need row = Inr (with_defaults row)"
  by (simp add: setdefault_loop_fold with_defaults_def)

lemma read_loop_eq: "read_loop records rows = Inr (rows @ map with_defaults records)"
  by (induction records arbitrary: rows) (simp_all add: setdefault_loop_need)

lemma map_of_setdefault:
  "map_of (cells (setdefault row k v)) k' =
     (case map_of (cells row) k' of
        Some w \<Rightarrow> Some w
      | None \<Rightarrow> if k' = k then Some v else None)"
  by (auto simp: setdefault_def map_add_def split: option.splits)

lemma surplus_setdefault: "surplus (setdefault row k v) = surplus row"
  by (simp add: setdefault_def split: option.splits)

lemma map_of_fold_setdefault:
  "map_of (cells (fold (\<lambda>k r. setdefault r k v) ks row)) k' =
     (case map_of (cells row) k' of
        Some w \<Rightarrow> Some w
      | None \<Rightarrow> if k' \<in> set ks then Some v else None)"
  by (induction ks arbitrary: row) (auto simp: map_of_setdefault split: option.splits)

lemma surplus_fold_setdefault: "surplus (fold (\<lambda>k r. setdefault r k v) ks row) = surplus row"
  by (induction ks arbitrary: row) (simp_all add: surplus_setdefault)

lemma map_of_with_defaults:
  "map_of (cells (with_defaults row)) k =
     (case map_of (cells row) k of
        Some v \<Rightarrow> Some v
      | None \<Rightarrow> if k \<in> set need then Some (PyStr '''') else None)"
  by (simp add: with_defaults_def map_of_fold_setdefault)

lemma surplus_with_defaults: "surplus (with_defaults row) = surplus row"
  by (simp add: with_defaults_def surplus_fold_setdefault)

lemma keys_with_defaults:
  "fst ` set (cells (with_defaults row)) = fst ` set (cells row) \<union> set need"
proof -
  have "dom (map_of (cells (with_defaults row))) = dom (map_of (cells row)) \<union> set need"
    by (auto simp: dom_def map_of_with_defaults split: option.splits if_splits)
  then show ?thesis
    by (simp add: dom_map_of_conv_image_fst)
qed

lemma get_with_defaults: "get (with_defaults row) k (PyStr '''') = get row k (PyStr '''')"
  by (simp add: get_def map_of_with_defaults split: option.splits)

lemma line_of_with_defaults: "line_of fieldnames (with_defaults row) = line_of fieldnames row"
  by (simp add: line_of_def get_with_defaults)

lemma wrong_fields_enriched:
  assumes "set header \<subseteq> set fieldnames" "set need \<subseteq> set fieldnames"
  shows "wrong_fields fieldnames (with_defaults (DictReader_next header row)) = []
         \<longleftrightarrow> length row \<le> length header"
proof -
  have "fst ` set (cells (with_defaults (DictReader_next header row))) \<subseteq> set fieldnames"
    using assms keys_DictReader_next [of header row] by (auto simp: keys_with_defaults)
  then have "filter (\<lambda>k. k \<notin> set fieldnames)
               (map fst (cells (with_defaults (DictReader_next header row)))) = []"
    by (auto simp: filter_empty_conv)
  then show ?thesis
    by (simp add: wrong_fields_def surplus_with_defaults surplus_DictReader_next
             split: option.splits)
qed

lemma dict_to_list_enriched:
  assumes "set header \<subseteq> set fieldnames" "set need \<subseteq> set fieldnames"
  shows "dict_to_list fieldnames (with_defaults (DictReader_next header row)) =
           (if length row \<le> length header
            then Inr (line_of fieldnames (DictReader_next header row))
            else Inl ValueError)"
  using wrong_fields_enriched [OF assms, of row]
  by (simp add: dict_to_list_def line_of_with_defaults [unfolded line_of_def] line_of_def)

lemma writerows_prefix: "\<exists>ls. fst (writerows fieldnames rs written) = written @ ls"
proof (induction rs arbitrary: written)
  case Nil
  then show ?case by simp
next
  case (Cons r rs)
  show ?case
  proof (cases "dict_to_list fieldnames r")
    case (Inl e)
    then show ?thesis by simp
  next
    case (Inr line)
    from Cons.IH [of "written @ [line]"] obtain ls
      where "fst (writerows fieldnames rs (written @ [line])) = (written @ [line]) @ ls" ..
    then show ?thesis using Inr by simp
  qed
qed

lemma writerows_all:
  assumes "\<forall>r \<in> set rs. dict_to_list fieldnames r = Inr (line_of fieldnames r)"
  shows "writerows fieldnames rs written = (written @ map (line_of fieldnames) rs, None)"
  using assms by (induction rs arbitrary: written) simp_all

lemma writerows_None:
  assumes "writerows fieldnames rs written = (w, None)"
  shows "w = written @ map (line_of fieldnames) rs"
  using assms
proof (induction rs arbitrary: written)
  case Nil
  then show ?case by simp
next
  case (Cons r rs)
  show ?case
  proof (cases "dict_to_list fieldnames r")
    case (Inl e)
    with Cons.prems show ?thesis by simp
  next
    case (Inr line)
    then have line: "line = line_of fieldnames r"
      by (auto simp: dict_to_list_def line_of_def split: if_splits)
    from Cons.prems Inr have "writerows fieldnames rs (written @ [line]) = (w, None)"
      by simp
    from Cons.IH [OF this] show ?thesis
      by (simp add: line)
  qed
qed

lemma enrich_Some:
  "enrich in_path out_path (Some content) =
     (let header = (case content of [] \<Rightarrow> [] | h # _ \<Rightarrow> h);
          fieldnames = header @ filter (\<lambda>k. k \<notin> set header) need;
          records = (case content of [] \<Rightarrow> [] | h # rs \<Rightarrow> DictReader_rows h rs)
      in case writerows fieldnames (map with_defaults records) [fieldnames] of
           (written, Some e) \<Rightarrow>
             \<lparr>stdout = [], out_file = Some written, ending = Uncaught e\<rparr>
         | (written, None) \<Rightarrow>
             \<lparr>stdout = [''Wrote '' @ out_path @ '' with columns: '' @ join '', '' fieldnames],
              out_file = Some written, ending = Finished\<rparr>)"
  by (simp add: enrich_def fieldnames_need read_loop_eq Let_def)

text \<open>The header line is written whatever happens to the records after it.\<close>

lemma enrich_header:
  "\<exists>lines. out_file (enrich in_path out_path (Some (header # rows))) =
      Some ((header @ filter (\<lambda>k. k \<notin> set header) need) # lines)"
proof -
  let ?fns = "header @ filter (\<lambda>k. k \<notin> set header) need"
  let ?rs = "map with_defaults (DictReader_rows header rows)"
  obtain w e where we: "writerows ?fns ?rs [?fns] = (w, e)"
    by (cases "writerows ?fns ?rs [?fns]")
  from writerows_prefix [of ?fns ?rs "[?fns]"] we obtain ls where "w = ?fns # ls"
    by auto
  then show ?thesis
    using we by (cases e) (simp_all add: enrich_Some Let_def)
qed

text \<open>
  When no row is longer than the header, every record is written: one line for each
  non-blank row, in the order of the rows.
\<close>

lemma enrich_ok:
  assumes "\<forall>row \<in> set rows. length row \<le> length header"
  shows "enrich in_path out_path (Some (header # rows)) =
     (let fieldnames = header @ filter (\<lambda>k. k \<notin> set header) need
      in \<lparr>stdout = [''Wrote '' @ out_path @ '' with columns: '' @ join '', '' fieldnames],
          out_file = Some (fieldnames #
             map (\<lambda>row. line_of fieldnames (DictReader_next header row))
               (filter (\<lambda>row. row \<noteq> []) rows)),
          ending = Finished\<rparr>)"
proof -
  let ?fns = "header @ filter (\<lambda>k. k \<notin> set header) need"
  let ?rs = "map with_defaults (DictReader_rows header rows)"
  have sub: "set header \<subseteq> set ?fns" "set need \<subseteq> set ?fns"
    by auto
  have "\<forall>r \<in> set ?rs. dict_to_list ?fns r = Inr (line_of ?fns r)"
    using assms
    by (auto simp: DictReader_rows_def dict_to_list_enriched [OF sub] line_of_with_defaults)
  then have "writerows ?fns ?rs [?fns] = ([?fns] @ map (line_of ?fns) ?rs, None)"
    by (rule writerows_all)
  moreover have "map (line_of ?fns) ?rs
      = map (\<lambda>row. line_of ?fns (DictReader_next header row)) (filter (\<lambda>row. row \<noteq> []) rows)"
    by (simp add: DictReader_rows_def line_of_with_defaults comp_def)
  ultimately show ?thesis
    by (simp add: enrich_Some Let_def)
qed

lemma map_of_rev_distinct: "distinct (map fst xs) \<Longrightarrow> map_of (rev xs) = map_of xs"
proof (induction xs)
  case Nil
  then show ?case by simp
next
  case (Cons p xs)
  obtain k v where p: "p = (k, v)" by (cases p)
  from Cons.prems have "k \<notin> fst ` set xs" and "distinct (map fst xs)"
    by (simp_all add: p)
  then have "map_of xs k = None" and "map_of (rev xs) = map_of xs"
    by (simp_all add: map_of_eq_None_iff Cons.IH)
  then show ?case
    by (auto simp: p fun_eq_iff map_add_def split: option.splits)
qed

text \<open>Under distinct column names a cell the row has is read back as it is.\<close>

lemma get_cell_distinct:
  assumes "distinct fieldnames" "j < length row" "j < length fieldnames"
  shows "get (DictReader_next fieldnames row) (fieldnames ! j) dflt = PyStr (row ! j)"
proof -
  let ?n = "min (length fieldnames) (length row)"
  let ?ks = "take ?n fieldnames"
  let ?vs = "take ?n (map PyStr row)"
  have zip: "zip fieldnames (map PyStr row) = zip ?ks ?vs"
    by (metis length_map take_zip zip_eq_conv length_zip take_all_iff le_refl)
  have len: "length ?ks = length ?vs" by simp
  have "distinct (map fst (zip ?ks ?vs))"
    using assms(1) by (simp add: len)
  then have "map_of (dict_zip fieldnames row) = map_of (zip ?ks ?vs)"
    by (simp only: map_of_dict_zip zip map_of_rev_distinct)
  moreover have "map_of (zip ?ks ?vs) (?ks ! j) = Some (?vs ! j)"
    using assms by (intro map_of_zip_nth) simp_all
  ultimately have cell: "map_of (dict_zip fieldnames row) (fieldnames ! j) = Some (PyStr (row ! j))"
    using assms by simp
  have "fieldnames ! j \<notin> set (drop (length row) fieldnames)"
  proof
    assume "fieldnames ! j \<in> set (drop (length row) fieldnames)"
    then obtain i where "i < length (drop (length row) fieldnames)"
        and "drop (length row) fieldnames ! i = fieldnames ! j"
      by (auto simp: in_set_conv_nth)
    then have "length row + i < length fieldnames" "fieldnames ! (length row + i) = fieldnames ! j"
      by simp_all
    with assms have "length row + i = j"
      by (simp add: nth_eq_iff_index_eq)
    with assms(2) show False by simp
  qed
  then show ?thesis
    using cell by (simp add: get_def DictReader_next_def Let_def map_of_fold_restval)
qed

lemma get_absent:
  assumes "k \<notin> set fieldnames"
  shows "get (DictReader_next fieldnames row) k dflt = dflt"
proof -
  have "k \<notin> fst ` set (cells (DictReader_next fieldnames row))"
    using assms keys_DictReader_next [of fieldnames row] by blast
  then show ?thesis
    by (simp add: get_def map_of_eq_None_iff [symmetric])
qed

text \<open>
  Under distinct column names the line of a row that is not longer than the header is the
  row itself, followed by empty cells up to the number of columns written.
\<close>

lemma line_padded:
  assumes "distinct header" "length row \<le> length header" "set extra \<inter> set header = {}"
  shows "line_of (header @ extra) (DictReader_next header row)
           = row @ replicate (length header + length extra - length row) ''''"
proof -
  let ?d = "DictReader_next header row"
  have old: "line_of header ?d = row @ replicate (length header - length row) ''''"
  proof (rule nth_equalityI)
    show "length (line_of header ?d) = length (row @ replicate (length header - length row) '''')"
      using assms(2) by (simp add: line_of_def)
  next
    fix j assume "j < length (line_of header ?d)"
    then have j: "j < length header" by (simp add: line_of_def)
    show "line_of header ?d ! j = (row @ replicate (length header - length row) '''') ! j"
    proof (cases "j < length row")
      case True
      then show ?thesis
        using j assms(1) by (simp add: line_of_def get_cell_distinct nth_append)
    next
      case False
      then have "length row \<le> j" by simp
      then show ?thesis
        using j False by (simp add: line_of_def get_restval nth_append)
    qed
  qed
  have "get ?d k (PyStr '''') = PyStr ''''" if "k \<in> set extra" for k
    using that assms(3) by (intro get_absent) auto
  then have "map (\<lambda>key. csv_cell (get ?d key (PyStr ''''))) extra = map (\<lambda>key. '''') extra"
    by simp
  then have new: "line_of extra ?d = replicate (length extra) ''''"
    by (simp add: line_of_def map_replicate_const)
  have "line_of (header @ extra) ?d = line_of header ?d @ line_of extra ?d"
    by (simp add: line_of_def)
  then show ?thesis
    using assms(2) by (simp add: old new replicate_add [symmetric])
qed

text \<open>A line the writer produced for the columns \<open>fieldnames\<close> is read and written back as it is.\<close>

lemma reread_line: "line_of fieldnames (DictReader_next fieldnames (map g fieldnames)) = map g fieldnames"
proof -
  let ?d = "DictReader_next fieldnames (map g fieldnames)"
  have "map_of (cells ?d) = map_of (rev (zip fieldnames (map (PyStr \<circ> g) fieldnames)))"
    by (simp add: DictReader_next_def Let_def map_of_dict_zip)
  also have "\<dots> = map_of (zip (rev fieldnames) (map (PyStr \<circ> g) (rev fieldnames)))"
    by (simp add: zip_rev [symmetric] rev_map)
  also have "\<dots> = (\<lambda>k. if k \<in> set (rev fieldnames) then Some ((PyStr \<circ> g) k) else None)"
    by (rule map_of_zip_map)
  finally have "get ?d k (PyStr '''') = PyStr (g k)" if "k \<in> set fieldnames" for k
    using that by (simp add: get_def)
  then show ?thesis
    by (simp add: line_of_def)
qed

text \<open>
  C7, as the claim states it: a data row with more cells than the header makes the writer
  raise \<^verbatim>\<open>ValueError\<close>; the output then holds the header line and no line for that row.
\<close>

theorem enrich_long_row:
  "out_file (enrich ''products.csv'' ''products_enriched.csv''
      (Some [[''sku'', ''name''], [''S1'', ''Soap'', ''extra'']]))
     = Some [[''sku'', ''name'', ''aliases'', ''skin_types'', ''oil_based'',
              ''condom_compatible'', ''notes'']]
   \<and> ending (enrich ''products.csv'' ''products_enriched.csv''
      (Some [[''sku'', ''name''], [''S1'', ''Soap'', ''extra'']]))
     = Uncaught ValueError"
  by code_simp

text \<open>
  C7, amended. The first line of the output is the original columns in their order,
  followed by the optional columns the header lacks, in the order of \<open>need\<close>; an input
  without any line gives the five optional columns alone. When no data row has more cells
  than the header, the run ends normally and the output holds, after the header line, one
  line for each non-blank row, in the order of the rows; under distinct column names that
  line is the row followed by empty cells.
\<close>

theorem enrich_output_shape:
  "(\<exists>lines. out_file (enrich in_path out_path (Some (header # rows))) =
       Some ((header @ filter (\<lambda>k. k \<notin> set header) need) # lines))
   \<and> ((\<forall>row \<in> set rows. length row \<le> length header) \<longrightarrow>
        ending (enrich in_path out_path (Some (header # rows))) = Finished
        \<and> out_file (enrich in_path out_path (Some (header # rows))) =
            Some ((header @ filter (\<lambda>k. k \<notin> set header) need) #
              map (\<lambda>row. line_of (header @ filter (\<lambda>k. k \<notin> set header) need)
                           (DictReader_next header row))
                (filter (\<lambda>row. row \<noteq> []) rows))
        \<and> (distinct header \<longrightarrow>
             (\<forall>row \<in> set rows.
                line_of (header @ filter (\<lambda>k. k \<notin> set header) need)
                    (DictReader_next header row)
                  = row @ replicate
                      (length (header @ filter (\<lambda>k. k \<notin> set header) need) - length row) '''')))
   \<and> out_file (enrich in_path out_path (Some [])) = Some [need]"
proof -
  let ?extra = "filter (\<lambda>k. k \<notin> set header) need"
  have first: "\<exists>lines. out_file (enrich in_path out_path (Some (header # rows))) =
      Some ((header @ ?extra) # lines)"
    by (rule enrich_header)
  have run: "ending (enrich in_path out_path (Some (header # rows))) = Finished
      \<and> out_file (enrich in_path out_path (Some (header # rows))) =
          Some ((header @ ?extra) #
            map (\<lambda>row. line_of (header @ ?extra) (DictReader_next header row))
              (filter (\<lambda>row. row \<noteq> []) rows))"
    if "\<forall>row \<in> set rows. length row \<le> length header"
    using enrich_ok [OF that, of in_path out_path] by (simp add: Let_def)
  have padded: "line_of (header @ ?extra) (DictReader_next header row)
       = row @ replicate (length (header @ ?extra) - length row) ''''"
    if "\<forall>row \<in> set rows. length row \<le> length header" "distinct header" "row \<in> set rows"
    for row
  proof -
    have "length row \<le> length header"
      using that(1,3) by blast
    moreover have "set ?extra \<inter> set header = {}"
      by auto
    ultimately show ?thesis
      using that(2) by (simp add: line_padded)
  qed
  have empty: "out_file (enrich in_path out_path (Some [])) = Some [need]"
    by (simp add: enrich_Some)
  show ?thesis
    using first run padded empty by blast
qed

theorem enrich_output_shape_witness:
  "length [''S1'', ''n1''] \<le> length [''sku'', ''notes'']
   \<and> length ([] :: string list) \<le> length [''sku'', ''notes'']
   \<and> length [''S2''] \<le> length [''sku'', ''notes'']
   \<and> distinct [''sku'', ''notes'']
   \<and> ending (enrich ''products.csv'' ''products_enriched.csv''
        (Some [[''sku'', ''notes''], [''S1'', ''n1''], [], [''S2'']])) = Finished
   \<and> out_file (enrich ''products.csv'' ''products_enriched.csv''
        (Some [[''sku'', ''notes''], [''S1'', ''n1''], [], [''S2'']]))
      = Some [[''sku'', ''notes'', ''aliases'', ''skin_types'', ''oil_based'', ''condom_compatible''],
              [''S1'', ''n1'', '''', '''', '''', ''''],
              [''S2'', '''', '''', '''', '''', '''']]"
proof -
  have h: "\<forall>row \<in> set [[''S1'', ''n1''], [], [''S2'']]. length row \<le> length [''sku'', ''notes'']"
    by simp
  have d: "distinct [''sku'', ''notes'']"
    by simp
  have x: "filter (\<lambda>k. k \<notin> set [''sku'', ''notes'']) need
           = [''aliases'', ''skin_types'', ''oil_based'', ''condom_compatible'']"
    by (simp add: need_def)
  note inst = enrich_output_shape [of "''products.csv''" "''products_enriched.csv''"
      "[''sku'', ''notes'']" "[[''S1'', ''n1''], [], [''S2'']]", unfolded x]
  from inst h d
  have lines: "line_of [''sku'', ''notes'', ''aliases'', ''skin_types'', ''oil_based'',
                      ''condom_compatible''] (DictReader_next [''sku'', ''notes''] [''S1'', ''n1''])
          = [''S1'', ''n1'', '''', '''', '''', '''']"
      "line_of [''sku'', ''notes'', ''aliases'', ''skin_types'', ''oil_based'',
                      ''condom_compatible''] (DictReader_next [''sku'', ''notes''] [''S2''])
          = [''S2'', '''', '''', '''', '''', '''']"
    by (simp_all add: numeral_eq_Suc)
  from inst h have "ending (enrich ''products.csv'' ''products_enriched.csv''
        (Some [[''sku'', ''notes''], [''S1'', ''n1''], [], [''S2'']])) = Finished
      \<and> out_file (enrich ''products.csv'' ''products_enriched.csv''
        (Some [[''sku'', ''notes''], [''S1'', ''n1''], [], [''S2'']]))
        = Some (([''sku'', ''notes''] @ [''aliases'', ''skin_types'', ''oil_based'', ''condom_compatible'']) #
              map (\<lambda>row. line_of ([''sku'', ''notes'']
                                    @ [''aliases'', ''skin_types'', ''oil_based'', ''condom_compatible''])
                           (DictReader_next [''sku'', ''notes''] row))
                (filter (\<lambda>row. row \<noteq> []) [[''S1'', ''n1''], [], [''S2'']]))"
    by blast
  then show ?thesis
    using h d lines by simp
qed

text \<open>
  C8, as the claim states it: with all five optional columns in the header, a row with
  fewer cells than the header comes out padded with empty cells, and under a column name
  that occurs twice the earlier cell comes out with the value of the later one.
\<close>

theorem enrich_changes_rows:
  "out_file (enrich ''products.csv'' ''products_enriched.csv''
      (Some [[''aliases'', ''skin_types'', ''oil_based'', ''condom_compatible'', ''notes''],
             [''a'']]))
     = Some [[''aliases'', ''skin_types'', ''oil_based'', ''condom_compatible'', ''notes''],
             [''a'', '''', '''', '''', '''']]
   \<and> out_file (enrich ''products.csv'' ''products_enriched.csv''
      (Some [[''notes'', ''aliases'', ''skin_types'', ''oil_based'', ''condom_compatible'', ''notes''],
             [''n1'', ''a'', ''s'', ''true'', ''false'', ''n2'']]))
     = Some [[''notes'', ''aliases'', ''skin_types'', ''oil_based'', ''condom_compatible'', ''notes''],
             [''n2'', ''a'', ''s'', ''true'', ''false'', ''n2'']]"
  by code_simp

text \<open>
  C8, amended. With all five optional columns in the header, the enricher adds no column:
  the first line of the output is the header. If moreover the column names are distinct
  and every row has as many cells as the header, the output is the input, header and rows.
  A run on the output of a run that ended normally ends normally and writes that output
  again.
\<close>

theorem enrich_idempotent:
  "(set need \<subseteq> set header \<longrightarrow>
      (\<exists>lines. out_file (enrich in_path out_path (Some (header # rows))) = Some (header # lines)))
   \<and> (set need \<subseteq> set header \<and> distinct header
        \<and> (\<forall>row \<in> set rows. length row = length header) \<longrightarrow>
        out_file (enrich in_path out_path (Some (header # rows))) = Some (header # rows)
        \<and> ending (enrich in_path out_path (Some (header # rows))) = Finished)
   \<and> (ending (enrich in_path out_path file) = Finished
        \<and> out_file (enrich in_path out_path file) = Some out \<longrightarrow>
        out_file (enrich in_path' out_path' (Some out)) = Some out
        \<and> ending (enrich in_path' out_path' (Some out)) = Finished)"
proof -
  have complete: "filter (\<lambda>k. k \<notin> set h) need = []" if "set need \<subseteq> set h" for h
    using that by (auto simp: filter_empty_conv)
  have first: "\<exists>lines. out_file (enrich in_path out_path (Some (header # rows)))
      = Some (header # lines)"
    if "set need \<subseteq> set header"
    using enrich_header [of in_path out_path header rows] by (simp add: complete [OF that])
  have same: "out_file (enrich in_path out_path (Some (header # rows))) = Some (header # rows)
      \<and> ending (enrich in_path out_path (Some (header # rows))) = Finished"
    if sub: "set need \<subseteq> set header" and dist: "distinct header"
      and len: "\<forall>row \<in> set rows. length row = length header"
  proof -
    have "header \<noteq> []"
      using sub by (auto simp: need_def)
    then have nonblank: "filter (\<lambda>row. row \<noteq> []) rows = rows"
      using len by (auto simp: filter_id_conv)
    have le: "\<forall>row \<in> set rows. length row \<le> length header"
      using len by simp
    have "line_of header (DictReader_next header row) = row" if "row \<in> set rows" for row
      using line_padded [OF dist, of row "[]"] len that by simp
    then have "map (\<lambda>row. line_of header (DictReader_next header row)) rows = rows"
      by (simp add: map_idI)
    then show ?thesis
      using enrich_ok [OF le, of in_path out_path]
      by (simp add: Let_def complete [OF sub] nonblank)
  qed
  have again: "out_file (enrich in_path' out_path' (Some out)) = Some out
      \<and> ending (enrich in_path' out_path' (Some out)) = Finished"
    if fin: "ending (enrich in_path out_path file) = Finished"
      and out: "out_file (enrich in_path out_path file) = Some out"
  proof -
    from fin obtain content where some: "file = Some content"
      by (cases "file") (simp_all add: enrich_def)
    define hd0 where "hd0 = (case content of [] \<Rightarrow> [] | h # _ \<Rightarrow> h)"
    define fns where "fns = hd0 @ filter (\<lambda>k. k \<notin> set hd0) need"
    define rs where "rs = map with_defaults
        (case content of [] \<Rightarrow> [] | h # rs \<Rightarrow> DictReader_rows h rs)"
    obtain w e where we: "writerows fns rs [fns] = (w, e)"
      by (cases "writerows fns rs [fns]")
    have run: "enrich in_path out_path file =
        (case e of
           Some x \<Rightarrow> \<lparr>stdout = [], out_file = Some w, ending = Uncaught x\<rparr>
         | None \<Rightarrow> \<lparr>stdout = [''Wrote '' @ out_path @ '' with columns: '' @ join '', '' fns],
                    out_file = Some w, ending = Finished\<rparr>)"
      using we by (simp add: some enrich_Some Let_def hd0_def fns_def rs_def split: option.splits)
    from fin run have e: "e = None"
      by (cases e) simp_all
    with out run have "w = out"
      by simp
    with we e have "out = [fns] @ map (line_of fns) rs"
      using writerows_None [of fns rs "[fns]" w] by simp
    then have out_eq: "out = fns # map (line_of fns) rs"
      by simp
    have sub: "set need \<subseteq> set fns"
      by (auto simp: fns_def)
    then have nonempty: "fns \<noteq> []"
      by (auto simp: need_def)
    have len: "\<forall>row \<in> set (map (line_of fns) rs). length row \<le> length fns"
      by (simp add: line_of_def)
    have nonblank: "filter (\<lambda>row. row \<noteq> []) (map (line_of fns) rs) = map (line_of fns) rs"
      using nonempty by (auto simp: filter_id_conv line_of_def)
    have reread: "line_of fns (DictReader_next fns (line_of fns r)) = line_of fns r" for r
      unfolding line_of_def [of fns r] by (rule reread_line)
    show ?thesis
      using enrich_ok [OF len, of in_path' out_path']
      by (simp add: out_eq Let_def complete [OF sub] nonblank reread)
  qed
  show ?thesis
    using first same again by blast
qed

theorem enrich_idempotent_witness:
  "set need \<subseteq> set (''sku'' # need) \<and> distinct (''sku'' # need)
   \<and> length [''S1'', ''a'', ''dry'', ''true'', ''false'', ''n''] = length (''sku'' # need)
   \<and> out_file (enrich ''products.csv'' ''products_enriched.csv''
        (Some [''sku'' # need, [''S1'', ''a'', ''dry'', ''true'', ''false'', ''n'']]))
      = Some [''sku'' # need, [''S1'', ''a'', ''dry'', ''true'', ''false'', ''n'']]
   \<and> ending (enrich ''products.csv'' ''products_enriched.csv'' (Some [[''sku''], [''S1'']]))
      = Finished
   \<and> out_file (enrich ''products.csv'' ''products_enriched.csv'' (Some [[''sku''], [''S1'']]))
      = Some [''sku'' # need, [''S1'', '''', '''', '''', '''', '''']]
   \<and> out_file (enrich ''products_enriched.csv'' ''products_enriched.csv''
        (Some [''sku'' # need, [''S1'', '''', '''', '''', '''', '''']]))
      = Some [''sku'' # need, [''S1'', '''', '''', '''', '''', '''']]"
proof -
  have h1: "set need \<subseteq> set (''sku'' # need)"
    by auto
  have h2: "distinct (''sku'' # need)"
    by (simp add: need_def)
  have h3: "\<forall>row \<in> set [[''S1'', ''a'', ''dry'', ''true'', ''false'', ''n'']].
         length row = length (''sku'' # need)"
    by (simp add: need_def)
  have h4: "ending (enrich ''products.csv'' ''products_enriched.csv''
        (Some [[''sku''], [''S1'']])) = Finished"
    by code_simp
  have h5: "out_file (enrich ''products.csv'' ''products_enriched.csv''
        (Some [[''sku''], [''S1'']]))
      = Some [''sku'' # need, [''S1'', '''', '''', '''', '''', '''']]"
    by code_simp
  show ?thesis
    using h1 h2 h3 h4 h5
      enrich_idempotent [of "''sku'' # need" "''products.csv''" "''products_enriched.csv''"
        "[[''S1'', ''a'', ''dry'', ''true'', ''false'', ''n'']]" "Some [[''sku''], [''S1'']]"
        "[''sku'' # need, [''S1'', '''', '''', '''', '''', '''']]"
        "''products_enriched.csv''" "''products_enriched.csv''"]
    by simp
qed

text \<open>
  C10. The \<^verbatim>\<open>setdefault\<close> loop never raises, and in each record it leaves the surplus
  cells and the value under every key the record has as they are; a key the record lacks
  gets the empty string when it is one of the five optional columns and stays absent
  otherwise. The line written for the record therefore holds, in every column, what the
  record read from the input holds there.
\<close>

theorem setdefault_frame:
  "\<exists>rows. read_loop records [] = Inr rows \<and> length rows = length records
     \<and> (\<forall>j < length records.
          surplus (rows ! j) = surplus (records ! j)
          \<and> (\<forall>k. map_of (cells (rows ! j)) k =
                 (case map_of (cells (records ! j)) k of
                    Some v \<Rightarrow> Some v
                  | None \<Rightarrow> if k \<in> set need then Some (PyStr '''') else None))
          \<and> line_of fieldnames (rows ! j) = line_of fieldnames (records ! j))"
proof -
  have "read_loop records [] = Inr (map with_defaults records)"
    by (simp add: read_loop_eq)
  moreover have "surplus (map with_defaults records ! j) = surplus (records ! j)
      \<and> (\<forall>k. map_of (cells (map with_defaults records ! j)) k =
             (case map_of (cells (records ! j)) k of
                Some v \<Rightarrow> Some v
              | None \<Rightarrow> if k \<in> set need then Some (PyStr '''') else None))
      \<and> line_of fieldnames (map with_defaults records ! j) = line_of fieldnames (records ! j)"
    if "j < length records" for j
    using that
    by (simp add: surplus_with_defaults map_of_with_defaults line_of_with_defaults)
  ultimately show ?thesis
    by (intro exI [of _ "map with_defaults records"]) simp
qed

theorem setdefault_frame_witness:
  "\<exists>rows. read_loop [DictReader_next [''sku'', ''notes''] [''S1'']] [] = Inr rows
     \<and> (0::nat) < length [DictReader_next [''sku'', ''notes''] [''S1'']]
     \<and> map_of (cells (rows ! 0)) ''sku'' = Some (PyStr ''S1'')
     \<and> map_of (cells (rows ! 0)) ''notes'' = Some PyNone
     \<and> map_of (cells (rows ! 0)) ''aliases'' = Some (PyStr '''')
     \<and> map_of (cells (rows ! 0)) ''price'' = None"
proof -
  let ?r = "DictReader_next [''sku'', ''notes''] [''S1'']"
  have c: "map_of (cells ?r) ''sku'' = Some (PyStr ''S1'')"
      "map_of (cells ?r) ''notes'' = Some PyNone"
      "map_of (cells ?r) ''aliases'' = None"
      "map_of (cells ?r) ''price'' = None"
    by code_simp+
  have n: "''aliases'' \<in> set need" "''price'' \<notin> set need"
    by (simp_all add: need_def)
  from setdefault_frame [of "[?r]" "[]"] obtain rows
    where r: "read_loop [?r] [] = Inr rows"
      and f: "\<forall>j < length [?r].
          surplus (rows ! j) = surplus ([?r] ! j)
          \<and> (\<forall>k. map_of (cells (rows ! j)) k =
                 (case map_of (cells ([?r] ! j)) k of
                    Some v \<Rightarrow> Some v
                  | None \<Rightarrow> if k \<in> set need then Some (PyStr '''') else None))
          \<and> line_of [] (rows ! j) = line_of [] ([?r] ! j)"
    by blast
  from f have "\<forall>k. map_of (cells (rows ! 0)) k =
                 (case map_of (cells ?r) k of
                    Some v \<Rightarrow> Some v
                  | None \<Rightarrow> if k \<in> set need then Some (PyStr '''') else None)"
    by simp
  then have "map_of (cells (rows ! 0)) ''sku'' = Some (PyStr ''S1'')
     \<and> map_of (cells (rows ! 0)) ''notes'' = Some PyNone
     \<and> map_of (cells (rows ! 0)) ''aliases'' = Some (PyStr '''')
     \<and> map_of (cells (rows ! 0)) ''price'' = None"
    using c n by simp
  then show ?thesis
    using r by (intro exI [of _ rows]) simp
qed

end
